theory Spec2Isabelle
  imports Complex_Main
begin

section \<open>Evolutionary strategies: the numeric cells of the notebooks\<close>

text \<open>
  The repository consists of two notebooks, \<^emph>\<open>2.1 Evolutionary Strategies\<close> and
  \<^emph>\<open>2.2 CMA Evolutionary Strategy\<close>. Their code cells are top-level numpy
  statements over the variables \<open>x\<close>, \<open>N\<close>, \<open>fits\<close>, \<open>mu\<close>, \<open>C\<close>; each cell is
  embedded as a function of the variables it reads. Floating-point numbers are
  read as real numbers, a one-dimensional array as a list and a two-dimensional
  array as the list of its rows.
\<close>

type_synonym vec = "real list"
type_synonym matrix = "real list list"

subsection \<open>The objective function\<close>

text \<open>
  \<^verbatim>\<open>
  def himmelblau(x, y):
      return (x**2 + y - 11)**2 + (x + y**2 - 7)**2
  \<close>
\<close>

definition himmelblau :: "real \<Rightarrow> real \<Rightarrow> real" where
  "himmelblau x y = (x\<^sup>2 + y - 11)\<^sup>2 + (x + y\<^sup>2 - 7)\<^sup>2"

subsection \<open>The rank weights\<close>

text \<open>
  \<^verbatim>\<open>
  w = np.log(mu + 1/2) - np.log(np.arange(1, mu+1))
  w /= np.sum(w)
  \<close>
  \<open>log_weights\<close> is the first line, \<open>rank_weights\<close> the vector \<open>w\<close> after the
  second. For \<open>mu = 0\<close> both arrays are empty and no division takes place.
\<close>

definition log_weights :: "nat \<Rightarrow> vec" where
  "log_weights mu = map (\<lambda>k. ln (real mu + 1 / 2) - ln (real k)) [1..<Suc mu]"

definition rank_weights :: "nat \<Rightarrow> vec" where
  "rank_weights mu = (let w = log_weights mu in map (\<lambda>wk. wk / sum_list w) w)"

subsection \<open>Selection and rank weighting\<close>

text \<open>
  \<^verbatim>\<open>
  mu = 10
  sorted_ids = np.argsort(fits)
  w = np.log(mu + 1/2) - np.log(np.arange(1, mu+1))
  w /= np.sum(w)
  weighted = N[sorted_ids[:mu]] * w.reshape(mu, 1)
  s = np.mean(weighted, axis=0)
  \<close>
  \<open>np.argsort\<close> is numpy's; the cell passes no \<open>kind\<close>. It is a parameter of the
  embedding, and \<open>is_argsort\<close> is the contract numpy documents for it: the result
  holds every index of the array once, and reading the array in that order gives
  ascending values. The contract says nothing on the order of equal values.
\<close>

definition is_argsort :: "vec \<Rightarrow> nat list \<Rightarrow> bool" where
  "is_argsort fits ids \<longleftrightarrow>
     sort ids = [0..<length fits] \<and> sorted (map (\<lambda>i. fits ! i) ids)"

text \<open>
  \<open>np.mean(a, axis=0)\<close>: the mean of every column of a two-dimensional array, that
  is the sum of the column divided by the number of rows.
\<close>

definition np_mean_axis0 :: "matrix \<Rightarrow> vec" where
  "np_mean_axis0 a = map (\<lambda>col. sum_list col / real (length col)) (transpose a)"

text \<open>
  The cell as a function of \<open>N\<close> (the \<open>lam\<close> sampled offsets, one per row),
  \<open>fits\<close> and \<open>mu\<close>. Row \<open>k\<close> of \<open>N[sorted_ids[:mu]]\<close> is multiplied by \<open>w[k]\<close>.
  The cell is meant for \<open>1 \<le> mu \<le> lam\<close> and rows of one length; the properties
  below are stated for such arguments.
\<close>

definition select_and_weight :: "(vec \<Rightarrow> nat list) \<Rightarrow> matrix \<Rightarrow> vec \<Rightarrow> nat \<Rightarrow> vec" where
  "select_and_weight argsort N fits mu =
     (let sorted_ids = argsort fits;
          w = rank_weights mu;
          weighted = map2 (\<lambda>row wk. map (\<lambda>c. c * wk) row)
                       (map (\<lambda>i. N ! i) (take mu sorted_ids)) w;
          s = np_mean_axis0 weighted
      in s)"

text \<open>
  The step vector as the specification words it, for comparison with the cell:
  \<open>s = \<Sum>\<^sub>k w\<^sub>k * t\<^sub>(\<^sub>k\<^sub>)\<close> over the selected offsets \<open>ts\<close>, with no further division.
\<close>

definition spec_weighted_sum :: "vec \<Rightarrow> matrix \<Rightarrow> vec" where
  "spec_weighted_sum w ts =
     map sum_list (transpose (map2 (\<lambda>t wk. map (\<lambda>c. c * wk) t) ts w))"

text \<open>
  Two fitness arrays over one population induce the same ranking of the members when
  they order every pair of members alike.
\<close>

definition same_ranking :: "vec \<Rightarrow> vec \<Rightarrow> bool" where
  "same_ranking fits fits' \<longleftrightarrow>
     length fits' = length fits
     \<and> (\<forall>i<length fits. \<forall>j<length fits. (fits' ! i \<le> fits' ! j) = (fits ! i \<le> fits ! j))"

text \<open>
  numpy sorts an array of floating-point numbers by comparing its entries, whichever
  \<open>kind\<close> it runs: the order it returns is a function of the outcomes of \<open><\<close> between
  the entries and of the length of the array. \<open>by_comparisons cs\<close> is such an
  \<open>np.argsort\<close>, for an algorithm \<open>cs\<close> that is given the comparison of two positions
  and the length; \<open>cs\<close> is arbitrary, so nothing is fixed about the order of ties.
\<close>

definition by_comparisons :: "((nat \<Rightarrow> nat \<Rightarrow> bool) \<Rightarrow> nat \<Rightarrow> nat list) \<Rightarrow> vec \<Rightarrow> nat list" where
  "by_comparisons cs fits =
     cs (\<lambda>i j. i < length fits \<and> j < length fits \<and> fits ! i < fits ! j) (length fits)"

text \<open>
  One such algorithm, to run the cell on concrete arrays: the positions in the order
  of the number of smaller entries, the earlier position first among equal ones.
\<close>

definition rank_sort :: "(nat \<Rightarrow> nat \<Rightarrow> bool) \<Rightarrow> nat \<Rightarrow> nat list" where
  "rank_sort lt n = sort_key (\<lambda>i. length (filter (\<lambda>j. lt j i) [0..<n])) [0..<n]"

subsection \<open>Mean and covariance update\<close>

text \<open>
  \<^verbatim>\<open>
  x = x + s
  C = np.eye(2)
  C = C + np.outer(s, (s).T)
  \<close>
  The transpose of a one-dimensional array is the array itself.
\<close>

definition vec_add :: "vec \<Rightarrow> vec \<Rightarrow> vec" where
  "vec_add a b = map2 (+) a b"

definition mat_add :: "matrix \<Rightarrow> matrix \<Rightarrow> matrix" where
  "mat_add A B = map2 vec_add A B"

definition np_eye :: "nat \<Rightarrow> matrix" where
  "np_eye n = map (\<lambda>i. map (\<lambda>j. if i = j then 1 else 0) [0..<n]) [0..<n]"

definition np_outer :: "vec \<Rightarrow> vec \<Rightarrow> matrix" where
  "np_outer a b = map (\<lambda>ai. map (\<lambda>bj. ai * bj) b) a"

definition update_mean :: "vec \<Rightarrow> vec \<Rightarrow> vec" where
  "update_mean x s = vec_add x s"

definition update_covariance :: "matrix \<Rightarrow> vec \<Rightarrow> matrix" where
  "update_covariance C s = mat_add C (np_outer s s)"

text \<open>
  The notebook states a second form of the update in prose and runs no code for it:
  ``The common formula for this is \<open>C = (1 - c\<^sub>i) C + c\<^sub>i s s\<^sup>T\<close> where \<open>c\<^sub>i\<close> is the rank
  one covariance matrix update learning rate.''
\<close>

definition mat_scale :: "real \<Rightarrow> matrix \<Rightarrow> matrix" where
  "mat_scale c A = map (map (\<lambda>v. c * v)) A"

definition update_covariance_rate :: "real \<Rightarrow> matrix \<Rightarrow> vec \<Rightarrow> matrix" where
  "update_covariance_rate c C s = mat_add (mat_scale (1 - c) C) (mat_scale c (np_outer s s))"

text \<open>An \<open>n\<close> by \<open>n\<close> array, and one that equals its transpose.\<close>

definition square :: "nat \<Rightarrow> matrix \<Rightarrow> bool" where
  "square n A \<longleftrightarrow> length A = n \<and> (\<forall>r\<in>set A. length r = n)"

definition symmetric :: "nat \<Rightarrow> matrix \<Rightarrow> bool" where
  "symmetric n A \<longleftrightarrow> square n A \<and> (\<forall>i<n. \<forall>j<n. A ! i ! j = A ! j ! i)"

subsection \<open>Sampling through the eigendecomposition\<close>

text \<open>
  \<^verbatim>\<open>
  N = np.random.normal(size=(lam, 2))
  x_N = x + N
  eigenvalues, eigenvectors = np.linalg.eig(C)
  x_C = x + np.array([np.dot(eigenvectors, np.sqrt(eigenvalues) * N[i, :]) for i in range(lam)])
  \<close>
  \<open>np.sqrt\<close> of a negative number is \<open>nan\<close> (numpy prints a warning and goes on),
  and \<open>nan\<close> is absorbing for \<open>+\<close> and \<open>*\<close>, so the entries computed from the square
  roots are numbers or \<open>nan\<close>.
\<close>

datatype npfloat = Num real | NaN

definition np_sqrt :: "real \<Rightarrow> npfloat" where
  "np_sqrt v = (if v < 0 then NaN else Num (sqrt v))"

fun nf_add :: "npfloat \<Rightarrow> npfloat \<Rightarrow> npfloat" where
  "nf_add (Num a) (Num b) = Num (a + b)"
| "nf_add _ _ = NaN"

fun nf_mul :: "npfloat \<Rightarrow> npfloat \<Rightarrow> npfloat" where
  "nf_mul (Num a) (Num b) = Num (a * b)"
| "nf_mul _ _ = NaN"

definition nf_sum :: "npfloat list \<Rightarrow> npfloat" where
  "nf_sum vs = foldr nf_add vs (Num 0)"

text \<open>\<open>np.dot\<close> of a two-dimensional array and a vector: one sum of products per row.\<close>

definition np_dot :: "matrix \<Rightarrow> npfloat list \<Rightarrow> npfloat list" where
  "np_dot A v = map (\<lambda>row. nf_sum (map2 (\<lambda>a b. nf_mul (Num a) b) row v)) A"

text \<open>
  \<open>np.linalg.eig\<close> is numpy's and a parameter of the embedding. It returns the
  eigenvalues and the matrix whose columns are the eigenvectors, or raises
  \<open>LinAlgError\<close>; the cell catches nothing, so the error leaves the cell. The random
  draws \<open>N\<close> are an argument. The result is \<open>x_C\<close>, one sampled point per row.
\<close>

datatype error = LinAlgError

definition sample ::
  "(matrix \<Rightarrow> error + vec \<times> matrix) \<Rightarrow> vec \<Rightarrow> matrix \<Rightarrow> matrix \<Rightarrow> error + npfloat list list" where
  "sample eig x C N =
     (case eig C of
        Inl e \<Rightarrow> Inl e
      | Inr (eigenvalues, eigenvectors) \<Rightarrow>
          Inr (map (\<lambda>Ni. map2 nf_add (map Num x)
                 (np_dot eigenvectors (map2 nf_mul (map np_sqrt eigenvalues) (map Num Ni)))) N))"

text \<open>
  Matrix products on real arrays, to state what an eigendecomposition is:
  \<open>mat_mul A B\<close> is \<open>A B\<close>, \<open>mul_transposed A B\<close> is \<open>A B\<^sup>T\<close>, \<open>scale_columns A e\<close> is
  \<open>A diag(e)\<close> and \<open>mat_vec A v\<close> is \<open>A v\<close>.
\<close>

definition dot :: "vec \<Rightarrow> vec \<Rightarrow> real" where
  "dot a b = sum_list (map2 (*) a b)"

definition mat_vec :: "matrix \<Rightarrow> vec \<Rightarrow> vec" where
  "mat_vec A v = map (\<lambda>row. dot row v) A"

definition mul_transposed :: "matrix \<Rightarrow> matrix \<Rightarrow> matrix" where
  "mul_transposed A B = map (\<lambda>a. map (\<lambda>b. dot a b) B) A"

definition mat_mul :: "matrix \<Rightarrow> matrix \<Rightarrow> matrix" where
  "mat_mul A B = mul_transposed A (transpose B)"

definition scale_columns :: "matrix \<Rightarrow> vec \<Rightarrow> matrix" where
  "scale_columns A e = map (\<lambda>row. map2 (*) row e) A"

text \<open>
  \<open>(e, Q)\<close> is an eigendecomposition of the \<open>n\<close> by \<open>n\<close> matrix \<open>C\<close> with orthonormal
  eigenvectors: \<open>C Q = Q diag(e)\<close> and \<open>Q Q\<^sup>T = I\<close>.
\<close>

definition is_eigendecomposition :: "nat \<Rightarrow> matrix \<Rightarrow> vec \<Rightarrow> matrix \<Rightarrow> bool" where
  "is_eigendecomposition n C e Q \<longleftrightarrow>
     square n C \<and> length e = n \<and> square n Q
     \<and> mat_mul C Q = scale_columns Q e
     \<and> mul_transposed Q Q = np_eye n"

text \<open>The transform \<open>M = Q diag(sqrt e)\<close> that the cell applies to every draw.\<close>

definition sampling_transform :: "matrix \<Rightarrow> vec \<Rightarrow> matrix" where
  "sampling_transform Q e = scale_columns Q (map sqrt e)"

subsection \<open>The evolutionary strategy with gradient step\<close>

text \<open>
  The first notebook gives the combined strategy as pseudocode; its implementation
  is left as an exercise.
  \<^verbatim>\<open>
  Initialize x randomly
  x_best = x
  while not terminate
      for i in [1,lambda]
          N_i = N(0, 1)
          F_i = f(x + N_i)
          if F_i < f(x_best)
              x_best = x + N_i
      A = (F - mu(F)) / sigma(F)
      x = x - alpha (A . N) / lambda
  return x_best
  \<close>
  The random draws of a generation are an argument, one row per \<open>N_i\<close>. The mean and
  the standard deviation are numpy's \<open>np.mean\<close> and \<open>np.std\<close>, which the notebook
  uses for \<open>A\<close> in its code cells. The state of the loop is the pair of \<open>x\<close> (the
  field \<open>x_cur\<close>) and \<open>x_best\<close>.
\<close>

record es_state =
  x_cur :: vec
  x_best :: vec

fun track_best :: "(vec \<Rightarrow> real) \<Rightarrow> vec \<Rightarrow> vec \<Rightarrow> matrix \<Rightarrow> vec" where
  "track_best f x xb [] = xb"
| "track_best f x xb (Ni # Ns) =
     (let Fi = f (vec_add x Ni)
      in if Fi < f xb then track_best f x (vec_add x Ni) Ns else track_best f x xb Ns)"

definition np_mean :: "vec \<Rightarrow> real" where
  "np_mean F = sum_list F / real (length F)"

definition np_std :: "vec \<Rightarrow> real" where
  "np_std F = sqrt (np_mean (map (\<lambda>v. (v - np_mean F)\<^sup>2) F))"

text \<open>
  One pass of the body of the \<open>while\<close> loop. The quotients by \<open>sigma(F)\<close> and by
  \<open>lambda\<close> have no value when the divisor is zero; the generation then has no
  result (\<open>None\<close>).
\<close>

definition generation :: "(vec \<Rightarrow> real) \<Rightarrow> real \<Rightarrow> es_state \<Rightarrow> matrix \<Rightarrow> es_state option" where
  "generation f \<alpha> st N =
     (let x = x_cur st;
          xb = track_best f x (x_best st) N;
          F = map (\<lambda>Ni. f (vec_add x Ni)) N;
          lam = length N
      in if lam = 0 \<or> np_std F = 0 then None
         else
           (let A = map (\<lambda>Fi. (Fi - np_mean F) / np_std F) F;
                AN = map (\<lambda>col. dot A col) (transpose N)
            in Some \<lparr>x_cur = map2 (-) x (map (\<lambda>g. \<alpha> * g / real lam) AN), x_best = xb\<rparr>))"

text \<open>The loop, one list of draws per generation, from the state \<open>x_best = x\<close>.\<close>

fun run :: "(vec \<Rightarrow> real) \<Rightarrow> real \<Rightarrow> es_state \<Rightarrow> matrix list \<Rightarrow> es_state option" where
  "run f \<alpha> st [] = Some st"
| "run f \<alpha> st (N # Ns) =
     (case generation f \<alpha> st N of None \<Rightarrow> None | Some st' \<Rightarrow> run f \<alpha> st' Ns)"

definition es :: "(vec \<Rightarrow> real) \<Rightarrow> real \<Rightarrow> vec \<Rightarrow> matrix list \<Rightarrow> vec option" where
  "es f \<alpha> x0 Ns = map_option x_best (run f \<alpha> \<lparr>x_cur = x0, x_best = x0\<rparr> Ns)"

section \<open>Properties\<close>

subsection \<open>Rank weights\<close>

lemma length_log_weights: "length (log_weights mu) = mu"
  by (simp add: log_weights_def)

lemma length_rank_weights: "length (rank_weights mu) = mu"
  by (simp add: rank_weights_def Let_def length_log_weights)

lemma nth_log_weights:
  "k < mu \<Longrightarrow> log_weights mu ! k = ln (real mu + 1 / 2) - ln (real (Suc k))"
  by (simp add: log_weights_def nth_map_upt del: upt_Suc)

lemma log_weights_pos:
  assumes "k < mu"
  shows "0 < log_weights mu ! k"
proof -
  have "real (Suc k) < real mu + 1 / 2"
    using assms by simp
  moreover have "0 < real (Suc k)"
    by simp
  ultimately have "ln (real (Suc k)) < ln (real mu + 1 / 2)"
    by (subst ln_less_cancel_iff) linarith+
  then show ?thesis
    using assms by (simp add: nth_log_weights)
qed

lemma log_weights_antimono:
  assumes "i \<le> j" and "j < mu"
  shows "log_weights mu ! j \<le> log_weights mu ! i"
proof -
  have "ln (real (Suc i)) \<le> ln (real (Suc j))"
    using assms by (subst ln_le_cancel_iff) simp_all
  then show ?thesis
    using assms by (simp add: nth_log_weights)
qed

lemma sum_list_pos_nth:
  fixes xs :: "real list"
  assumes "xs \<noteq> []" and "\<And>k. k < length xs \<Longrightarrow> 0 < xs ! k"
  shows "0 < sum_list xs"
proof -
  have "\<And>x. x \<in> set xs \<Longrightarrow> 0 < x"
    using assms(2) by (auto simp: in_set_conv_nth)
  then show ?thesis
    using assms(1) by (induction xs) (auto intro: add_pos_nonneg sum_list_nonneg less_imp_le)
qed

lemma sum_log_weights_pos:
  assumes "1 \<le> mu"
  shows "0 < sum_list (log_weights mu)"
proof (rule sum_list_pos_nth)
  show "log_weights mu \<noteq> []"
    using assms length_log_weights [of mu] by auto
  show "\<And>k. k < length (log_weights mu) \<Longrightarrow> 0 < log_weights mu ! k"
    by (simp add: length_log_weights log_weights_pos)
qed

lemma sum_list_divide_const:
  fixes xs :: "real list"
  shows "sum_list (map (\<lambda>x. x / c) xs) = sum_list xs / c"
  by (induction xs) (simp_all add: add_divide_distrib)

lemma nth_rank_weights:
  "k < mu \<Longrightarrow> rank_weights mu ! k = log_weights mu ! k / sum_list (log_weights mu)"
  by (simp add: rank_weights_def Let_def length_log_weights)

lemma sum_rank_weights:
  assumes "1 \<le> mu"
  shows "sum_list (rank_weights mu) = 1"
  using sum_log_weights_pos [OF assms]
  by (simp add: rank_weights_def Let_def sum_list_divide_const)

lemma rank_weights_nonneg:
  assumes "k < mu"
  shows "0 \<le> rank_weights mu ! k"
proof -
  have "1 \<le> mu"
    using assms by simp
  then have "0 < sum_list (log_weights mu)"
    by (rule sum_log_weights_pos)
  with log_weights_pos [OF assms] show ?thesis
    using assms by (simp add: nth_rank_weights)
qed

lemma rank_weights_antimono:
  assumes "i \<le> j" and "j < mu"
  shows "rank_weights mu ! j \<le> rank_weights mu ! i"
proof -
  have "1 \<le> mu"
    using assms by simp
  then have "0 < sum_list (log_weights mu)"
    by (rule sum_log_weights_pos)
  with log_weights_antimono [OF assms] show ?thesis
    using assms by (simp add: nth_rank_weights divide_right_mono)
qed

text \<open>
  Claim C5. For every \<open>mu \<ge> 1\<close> the weight vector \<open>w\<^sub>k = log (mu + 1/2) - log k\<close>,
  \<open>k = 1..mu\<close>, divided by its sum, has \<open>mu\<close> entries that sum to one, are
  non-negative, and do not increase with the rank.
\<close>

theorem rank_weights_normalized:
  assumes "1 \<le> mu"
  shows "length (rank_weights mu) = mu
    \<and> sum_list (rank_weights mu) = 1
    \<and> (\<forall>k<mu. 0 \<le> rank_weights mu ! k)
    \<and> (\<forall>i j. i \<le> j \<and> j < mu \<longrightarrow> rank_weights mu ! j \<le> rank_weights mu ! i)"
  using assms
  by (simp add: length_rank_weights sum_rank_weights rank_weights_nonneg rank_weights_antimono)

theorem rank_weights_normalized_witness:
  "(1::nat) \<le> 2 \<and> length (rank_weights 2) = 2 \<and> sum_list (rank_weights 2) = 1
    \<and> rank_weights 2 ! 1 \<le> rank_weights 2 ! 0 \<and> 0 \<le> rank_weights 2 ! 1"
proof -
  have h: "(1::nat) \<le> 2"
    by simp
  from rank_weights_normalized [OF h] show ?thesis
    by simp
qed

subsection \<open>The objective function\<close>

text \<open>
  Claim C10. \<open>himmelblau x y\<close> is the value \<open>(x\<^sup>2 + y - 11)\<^sup>2 + (x + y\<^sup>2 - 7)\<^sup>2\<close>, a
  function of its two arguments alone, and it is never negative.
\<close>

theorem himmelblau_nonneg:
  "himmelblau x y = (x\<^sup>2 + y - 11)\<^sup>2 + (x + y\<^sup>2 - 7)\<^sup>2 \<and> 0 \<le> himmelblau x y"
  by (simp add: himmelblau_def)

subsection \<open>Covariance update\<close>

lemma square_np_outer: "length s = n \<Longrightarrow> square n (np_outer s s)"
  by (auto simp: square_def np_outer_def)

lemma nth_np_outer: "i < length a \<Longrightarrow> j < length b \<Longrightarrow> np_outer a b ! i ! j = a ! i * b ! j"
  by (simp add: np_outer_def)

lemma square_mat_add: "square n A \<Longrightarrow> square n B \<Longrightarrow> square n (mat_add A B)"
  by (auto simp: square_def mat_add_def vec_add_def set_zip)

lemma nth_mat_add:
  "square n A \<Longrightarrow> square n B \<Longrightarrow> i < n \<Longrightarrow> j < n \<Longrightarrow> mat_add A B ! i ! j = A ! i ! j + B ! i ! j"
  by (simp add: square_def mat_add_def vec_add_def)

lemma square_mat_scale: "square n A \<Longrightarrow> square n (mat_scale c A)"
  by (auto simp: square_def mat_scale_def)

lemma nth_mat_scale:
  "square n A \<Longrightarrow> i < n \<Longrightarrow> j < n \<Longrightarrow> mat_scale c A ! i ! j = c * A ! i ! j"
  by (simp add: square_def mat_scale_def)

lemma symmetric_np_outer: "length s = n \<Longrightarrow> symmetric n (np_outer s s)"
  by (simp add: symmetric_def square_np_outer nth_np_outer mult.commute)

lemma symmetric_mat_add: "symmetric n A \<Longrightarrow> symmetric n B \<Longrightarrow> symmetric n (mat_add A B)"
  by (simp add: symmetric_def square_mat_add nth_mat_add [where n = n])

lemma symmetric_mat_scale: "symmetric n A \<Longrightarrow> symmetric n (mat_scale c A)"
  by (simp add: symmetric_def square_mat_scale nth_mat_scale [where n = n])

lemma symmetric_update_covariance:
  "symmetric n C \<Longrightarrow> length s = n \<Longrightarrow> symmetric n (update_covariance C s)"
  by (simp add: update_covariance_def symmetric_mat_add symmetric_np_outer)

lemma symmetric_update_covariance_rate:
  "symmetric n C \<Longrightarrow> length s = n \<Longrightarrow> symmetric n (update_covariance_rate c C s)"
  by (simp add: update_covariance_rate_def symmetric_mat_add symmetric_mat_scale symmetric_np_outer)

lemma symmetric_foldl_update:
  "symmetric n C \<Longrightarrow> \<forall>s\<in>set ss. length s = n \<Longrightarrow> symmetric n (foldl update_covariance C ss)"
  by (induction ss arbitrary: C) (simp_all add: symmetric_update_covariance)

text \<open>
  Claim C3. For a symmetric \<open>n\<close> by \<open>n\<close> matrix \<open>C\<close>, a step vector \<open>s\<close> of length \<open>n\<close>
  and any learning rate \<open>c\<close>, the update the notebook runs, \<open>C + outer(s, s)\<close>, and
  the blended update \<open>(1 - c) C + c outer(s, s)\<close> are symmetric; symmetry is kept by
  every update of a run, whatever the sequence \<open>ss\<close> of step vectors.
\<close>

theorem update_covariance_symmetric:
  assumes "symmetric n C" and "length s = n"
  shows "symmetric n (update_covariance C s)
    \<and> symmetric n (update_covariance_rate c C s)
    \<and> ((\<forall>s'\<in>set ss. length s' = n) \<longrightarrow> symmetric n (foldl update_covariance C ss))"
  using assms
  by (simp add: symmetric_update_covariance symmetric_update_covariance_rate symmetric_foldl_update)

theorem update_covariance_symmetric_witness:
  "symmetric 2 [[2, 1], [1, 3]] \<and> length [1, 2 :: real] = 2
    \<and> symmetric 2 (update_covariance [[2, 1], [1, 3]] [1, 2])
    \<and> symmetric 2 (update_covariance_rate (1 / 2) [[2, 1], [1, 3]] [1, 2])
    \<and> symmetric 2 (foldl update_covariance [[2, 1], [1, 3]] [[1, 2], [0, 1]])"
proof -
  have h: "symmetric 2 [[2, 1], [1, 3]]"
    by (simp add: symmetric_def square_def All_less_Suc numeral_2_eq_2)
  have l: "length [1, 2 :: real] = 2"
    by simp
  from update_covariance_symmetric [OF h l, of "1 / 2" "[[1, 2], [0, 1]]"] show ?thesis
    using h by simp
qed

lemma map2_add_zero: "length r = n \<Longrightarrow> map2 (+) r (replicate n (0::real)) = r"
  by (induction r arbitrary: n) auto

lemma np_outer_zero: "np_outer (replicate n 0) (replicate n 0) = replicate n (replicate n 0)"
  by (simp add: np_outer_def map_replicate_const)

lemma square_zero: "square n (replicate n (replicate n 0))"
  by (simp add: square_def)

lemma mat_add_zero: "square n C \<Longrightarrow> mat_add C (replicate n (replicate n 0)) = C"
  unfolding mat_add_def square_def vec_add_def
  by (rule nth_equalityI) (simp_all add: map2_add_zero)

lemma mat_scale_zero: "square n C \<Longrightarrow> mat_scale 0 C = replicate n (replicate n 0)"
  unfolding mat_scale_def square_def
  by (rule nth_equalityI) (auto simp: map_replicate_const intro: nth_equalityI)

lemma mat_scale_replicate: "mat_scale c (replicate n (replicate n 0)) = replicate n (replicate n 0)"
  by (simp add: mat_scale_def)

text \<open>
  The blended formula of the notebook's prose, which no cell computes, gives
  \<open>(1 - c) C\<close> for the zero step vector.
\<close>

lemma update_covariance_rate_zero:
  assumes "square n C"
  shows "update_covariance_rate c C (replicate n 0) = mat_scale (1 - c) C"
proof -
  have "square n (mat_scale (1 - c) C)"
    using assms by (rule square_mat_scale)
  then show ?thesis
    by (simp add: update_covariance_rate_def np_outer_zero mat_add_zero mat_scale_replicate)
qed

text \<open>
  Claim C7. For every \<open>n\<close> by \<open>n\<close> covariance matrix \<open>C\<close>, the covariance update with
  the zero step vector returns \<open>C\<close> unchanged. The update is the one the notebook
  runs, \<open>C + outer(s, s)\<close>, the form that the specification names learning rate 1.
\<close>

theorem update_covariance_zero_step:
  assumes "square n C"
  shows "update_covariance C (replicate n 0) = C"
  using assms by (simp add: update_covariance_def np_outer_zero mat_add_zero)

theorem update_covariance_zero_step_witness:
  "square 2 [[2, 1], [1, 3]] \<and> update_covariance [[2, 1], [1, 3]] [0, 0] = [[2, 1], [1, 3]]"
proof -
  have h: "square 2 [[2, 1], [1, 3]]"
    by (simp add: square_def)
  from update_covariance_zero_step [OF h] have "update_covariance [[2, 1], [1, 3]] (replicate 2 0)
      = [[2, 1], [1, 3]]" .
  then have "update_covariance [[2, 1], [1, 3]] [0, 0] = [[2, 1], [1, 3]]"
    by (simp add: numeral_2_eq_2)
  with h show ?thesis
    by blast
qed

subsection \<open>The best point of the evolutionary strategy\<close>

lemma track_best_le: "f (track_best f x xb N) \<le> f xb"
proof (induction N arbitrary: xb)
  case Nil
  show ?case by simp
next
  case (Cons Ni N)
  show ?case
  proof (cases "f (vec_add x Ni) < f xb")
    case True
    have "f (track_best f x (vec_add x Ni) N) \<le> f (vec_add x Ni)"
      by (rule Cons.IH)
    with True show ?thesis by (simp add: Let_def)
  next
    case False
    with Cons.IH [of xb] show ?thesis by (simp add: Let_def)
  qed
qed

lemma generation_x_best:
  assumes "generation f \<alpha> st N = Some st'"
  shows "x_best st' = track_best f (x_cur st) (x_best st) N"
  using assms by (auto simp: generation_def Let_def split: if_splits)

lemma generation_le:
  assumes "generation f \<alpha> st N = Some st'"
  shows "f (x_best st') \<le> f (x_best st)"
  using generation_x_best [OF assms] by (simp add: track_best_le)

lemma run_le:
  assumes "run f \<alpha> st Ns = Some st'"
  shows "f (x_best st') \<le> f (x_best st)"
  using assms
proof (induction Ns arbitrary: st)
  case Nil
  then show ?case by simp
next
  case (Cons N Ns)
  from Cons.prems obtain st1 where g: "generation f \<alpha> st N = Some st1"
    and r: "run f \<alpha> st1 Ns = Some st'"
    by (auto split: option.splits)
  have "f (x_best st') \<le> f (x_best st1)"
    using r by (rule Cons.IH)
  also have "\<dots> \<le> f (x_best st)"
    using g by (rule generation_le)
  finally show ?case .
qed

text \<open>
  Claim C9. In the combined strategy, where \<open>x_best\<close> is replaced by \<open>x + N_i\<close> only
  when \<open>F_i < f(x_best)\<close>, the value \<open>f(x_best)\<close> never increases: not within the
  inner loop over the draws, not from before a generation to after it, and not
  from the start of a run of any number of generations to its end.
\<close>

theorem x_best_never_worse:
  "f (track_best f x xb N) \<le> f xb
   \<and> (generation f \<alpha> st N = Some st' \<longrightarrow> f (x_best st') \<le> f (x_best st))
   \<and> (run f \<alpha> st Ns = Some st'' \<longrightarrow> f (x_best st'') \<le> f (x_best st))"
  by (auto simp: track_best_le generation_le run_le)

theorem x_best_never_worse_witness:
  "generation (\<lambda>v. himmelblau (v ! 0) (v ! 1)) 1
      \<lparr>x_cur = [0, 0], x_best = [0, 0]\<rparr> [[1, 0], [-1, 0]]
     = Some \<lparr>x_cur = [1, 0], x_best = [1, 0]\<rparr>
   \<and> run (\<lambda>v. himmelblau (v ! 0) (v ! 1)) 1
      \<lparr>x_cur = [0, 0], x_best = [0, 0]\<rparr> [[[1, 0], [-1, 0]], [[1, 0], [-1, 0]]]
     = Some \<lparr>x_cur = [2, 0], x_best = [2, 0]\<rparr>
   \<and> himmelblau 1 0 \<le> himmelblau 0 0 \<and> himmelblau 2 0 \<le> himmelblau 0 0"
proof -
  let ?f = "\<lambda>v::vec. himmelblau (v ! 0) (v ! 1)"
  let ?N = "[[1, 0], [-1, 0]] :: matrix"
  let ?st0 = "\<lparr>x_cur = [0, 0], x_best = [0, 0]\<rparr>"
  let ?st1 = "\<lparr>x_cur = [1, 0], x_best = [1, 0]\<rparr>"
  let ?st2 = "\<lparr>x_cur = [2, 0], x_best = [2, 0]\<rparr>"
  have s1: "sqrt 196 = 14"
    by (rule real_sqrt_unique) simp_all
  have s2: "sqrt 2304 = 48"
    by (rule real_sqrt_unique) simp_all
  have g1: "generation ?f 1 ?st0 ?N = Some ?st1"
    by (simp add: generation_def Let_def vec_add_def himmelblau_def np_std_def np_mean_def
        s1 dot_def)
  have g2: "generation ?f 1 ?st1 ?N = Some ?st2"
    by (simp add: generation_def Let_def vec_add_def himmelblau_def np_std_def np_mean_def
        s2 dot_def)
  have r: "run ?f 1 ?st0 [?N, ?N] = Some ?st2"
    by (simp only: run.simps g1 g2 option.case)
  from x_best_never_worse [of ?f _ _ ?N 1 ?st0 ?st1 "[?N, ?N]" ?st2] g1 r
  have "?f (x_best ?st1) \<le> ?f (x_best ?st0) \<and> ?f (x_best ?st2) \<le> ?f (x_best ?st0)"
    by blast
  then have "himmelblau 1 0 \<le> himmelblau 0 0 \<and> himmelblau 2 0 \<le> himmelblau 0 0"
    by simp
  with g1 r show ?thesis
    by blast
qed

subsection \<open>Selection and rank weighting\<close>

lemma is_argsort_set: "is_argsort fits ids \<Longrightarrow> set ids = {0..<length fits}"
  by (metis is_argsort_def set_sort set_upt)

lemma is_argsort_length: "is_argsort fits ids \<Longrightarrow> length ids = length fits"
  by (metis is_argsort_def length_sort length_upt minus_nat.diff_0)

lemma is_argsort_distinct: "is_argsort fits ids \<Longrightarrow> distinct ids"
  by (metis is_argsort_def distinct_sort distinct_upt)

lemma transpose_columns:
  assumes "a \<noteq> []" and "\<forall>r\<in>set a. length r = d"
  shows "\<forall>col\<in>set (transpose a). length col = length a"
proof -
  have "transpose a = map (\<lambda>i. map (\<lambda>j. a ! j ! i) [0..<length a]) [0..<d]"
    using assms by (intro transpose_rectangle) simp_all
  then show ?thesis
    by auto
qed

lemma np_mean_axis0_sum:
  assumes "a \<noteq> []" and "\<forall>r\<in>set a. length r = d"
  shows "np_mean_axis0 a = map (\<lambda>v. v / real (length a)) (map sum_list (transpose a))"
  using transpose_columns [OF assms] by (simp add: np_mean_axis0_def)

text \<open>
  What the cell computes, for every population of \<open>lam\<close> offsets of one dimension,
  every result of \<open>np.argsort\<close> within its contract and every \<open>1 \<le> mu \<le> lam\<close>: the
  weighted sum over the \<open>mu\<close> best-ranked offsets, divided by \<open>mu\<close>.
\<close>

lemma select_and_weight_eq:
  assumes "is_argsort fits (argsort fits)"
    and "length N = length fits"
    and "1 \<le> mu" and "mu \<le> length N"
    and "\<forall>r\<in>set N. length r = d"
  shows "select_and_weight argsort N fits mu =
    map (\<lambda>v. v / real mu)
      (spec_weighted_sum (rank_weights mu) (map (\<lambda>i. N ! i) (take mu (argsort fits))))"
proof -
  let ?ts = "map (\<lambda>i. N ! i) (take mu (argsort fits))"
  let ?a = "map2 (\<lambda>row wk. map (\<lambda>c. c * wk) row) ?ts (rank_weights mu)"
  have len_ids: "length (argsort fits) = length N"
    using assms(1,2) by (simp add: is_argsort_length)
  have len: "length ?a = mu"
    using assms(4) len_ids by (simp add: length_rank_weights)
  have ids: "\<forall>i\<in>set (take mu (argsort fits)). i < length N"
    using is_argsort_set [OF assms(1)] assms(2) by (auto dest: in_set_takeD)
  have ts: "\<forall>t\<in>set ?ts. length t = d"
    using ids assms(5) by auto
  have rows: "\<forall>r\<in>set ?a. length r = d"
    using ts by (auto dest!: set_zip_leftD)
  have ne: "?a \<noteq> []"
    using len assms(3) by auto
  show ?thesis
    using np_mean_axis0_sum [OF ne rows] len
    by (simp add: select_and_weight_def spec_weighted_sum_def Let_def)
qed

lemma rank_weights_2: "rank_weights 2 = [rank_weights 2 ! 0, rank_weights 2 ! 1]"
proof -
  have "length (rank_weights 2) = 2"
    by (rule length_rank_weights)
  then obtain a b where "rank_weights 2 = [a, b]"
    by (metis (no_types, opaque_lifting) One_nat_def Suc_1 length_0_conv length_Suc_conv)
  then show ?thesis
    by simp
qed

lemma rank_weights_2_sum: "rank_weights 2 ! 0 + rank_weights 2 ! 1 = 1"
proof -
  have "sum_list (rank_weights 2) = 1"
    by (rule sum_rank_weights) simp
  then have "sum_list [rank_weights 2 ! 0, rank_weights 2 ! 1] = 1"
    by (subst (asm) rank_weights_2)
  then show ?thesis
    by simp
qed

text \<open>
  Claim C1, at a failing input. The population has the two offsets \<open>(1, 2)\<close> and
  \<open>(3, 4)\<close> with fitness 5 and 8, so \<open>np.argsort\<close> returns \<open>[0, 1]\<close>, and \<open>mu = 2\<close>. The
  claim gives \<open>s\<close> as the weighted sum \<open>w\<^sub>1 * (1, 2) + w\<^sub>2 * (3, 4)\<close> with no further
  division; the cell takes \<open>np.mean\<close> of the weighted rows and returns half of that
  sum, which is a different vector.
\<close>

theorem select_and_weight_halves_weighted_sum:
  "is_argsort [5, 8] [0, 1]
   \<and> select_and_weight (\<lambda>fits. [0, 1]) [[1, 2], [3, 4]] [5, 8] 2
       = map (\<lambda>v. v / 2) (spec_weighted_sum (rank_weights 2) [[1, 2], [3, 4]])
   \<and> select_and_weight (\<lambda>fits. [0, 1]) [[1, 2], [3, 4]] [5, 8] 2
       \<noteq> spec_weighted_sum (rank_weights 2) [[1, 2], [3, 4]]"
proof -
  let ?a = "rank_weights 2 ! 0" and ?b = "rank_weights 2 ! 1"
  have srt: "is_argsort [5, 8] [0, 1]"
    by (simp add: is_argsort_def upt_conv_Cons)
  have "select_and_weight (\<lambda>fits. [0, 1]) [[1, 2], [3, 4]] [5, 8] 2
      = map (\<lambda>v. v / real 2)
          (spec_weighted_sum (rank_weights 2) (map (\<lambda>i. [[1, 2], [3, 4]] ! i) (take 2 [0, 1])))"
    using srt by (intro select_and_weight_eq [where d = 2]) simp_all
  then have code: "select_and_weight (\<lambda>fits. [0, 1]) [[1, 2], [3, 4]] [5, 8] 2
      = map (\<lambda>v. v / 2) (spec_weighted_sum (rank_weights 2) [[1, 2], [3, 4]])"
    by simp
  have "spec_weighted_sum [?a, ?b] [[1, 2], [3, 4]] = [?a + 3 * ?b, 2 * ?a + 4 * ?b]"
    by (simp add: spec_weighted_sum_def)
  then have spec: "spec_weighted_sum (rank_weights 2) [[1, 2], [3, 4]]
      = [?a + 3 * ?b, 2 * ?a + 4 * ?b]"
    by (subst rank_weights_2)
  have "0 \<le> ?b"
    by (rule rank_weights_nonneg) simp
  then have "0 < ?a + 3 * ?b"
    using rank_weights_2_sum by linarith
  then have "(?a + 3 * ?b) / 2 \<noteq> ?a + 3 * ?b"
    by simp
  with srt code spec show ?thesis
    by simp
qed

lemma sort_upt_set: "sort ids = [0..<n] \<Longrightarrow> set ids = {0..<n}"
  by (metis set_sort set_upt)

lemma sorted_same_ranking:
  assumes "same_ranking fits fits'" and "set ids = {0..<length fits}"
  shows "sorted (map (\<lambda>i. fits' ! i) ids) = sorted (map (\<lambda>i. fits ! i) ids)"
proof -
  have eq: "\<And>i j. i \<in> set ids \<Longrightarrow> j \<in> set ids \<Longrightarrow>
      (fits' ! i \<le> fits' ! j) = (fits ! i \<le> fits ! j)"
    using assms by (simp add: same_ranking_def)
  have "sorted_wrt (\<lambda>i j. fits' ! i \<le> fits' ! j) ids
      = sorted_wrt (\<lambda>i j. fits ! i \<le> fits ! j) ids"
    using eq by (auto elim!: sorted_wrt_mono_rel [rotated -1])
  then show ?thesis
    by (simp add: sorted_map)
qed

lemma is_argsort_same_ranking:
  assumes "same_ranking fits fits'"
  shows "is_argsort fits' ids = is_argsort fits ids"
proof (cases "sort ids = [0..<length fits]")
  case True
  then have "set ids = {0..<length fits}"
    by (rule sort_upt_set)
  from sorted_same_ranking [OF assms this] True assms show ?thesis
    by (simp add: is_argsort_def same_ranking_def)
next
  case False
  with assms show ?thesis
    by (simp add: is_argsort_def same_ranking_def)
qed

text \<open>Without ties the contract of \<open>np.argsort\<close> leaves one result only.\<close>

lemma is_argsort_unique:
  assumes "is_argsort fits ids" and "is_argsort fits ids'" and "distinct fits"
  shows "ids = ids'"
proof -
  let ?f = "\<lambda>i. fits ! i"
  have inj: "inj_on ?f {0..<length fits}"
    using assms(3) by (auto simp: inj_on_def nth_eq_iff_index_eq)
  have s: "set ids = {0..<length fits}" "set ids' = {0..<length fits}"
    using assms(1,2) by (simp_all add: is_argsort_set)
  have d: "distinct (map ?f ids)" "distinct (map ?f ids')"
    using assms(1,2) inj s by (simp_all add: distinct_map is_argsort_distinct)
  have so: "sorted (map ?f ids)" "sorted (map ?f ids')"
    using assms(1,2) by (simp_all add: is_argsort_def)
  have "set (map ?f ids) = set (map ?f ids')"
    using s by simp
  with so d have "map ?f ids = map ?f ids'"
    by (intro sorted_distinct_set_unique)
  moreover have "inj_on ?f (set ids \<union> set ids')"
    using inj s by simp
  ultimately show ?thesis
    by (simp add: inj_on_map_eq_map)
qed

lemma strict_mono_same_ranking:
  fixes g :: "real \<Rightarrow> real"
  assumes "strict_mono g"
  shows "same_ranking fits (map g fits)"
  using assms by (simp add: same_ranking_def strict_mono_less_eq)

lemma select_and_weight_cong:
  "argsort fits' = argsort fits \<Longrightarrow>
    select_and_weight argsort N fits' mu = select_and_weight argsort N fits mu"
  by (simp add: select_and_weight_def)

lemma same_ranking_less:
  assumes "same_ranking fits fits'"
  shows "(\<lambda>i j. i < length fits' \<and> j < length fits' \<and> fits' ! i < fits' ! j)
    = (\<lambda>i j. i < length fits \<and> j < length fits \<and> fits ! i < fits ! j)"
proof (intro ext)
  fix i j
  from assms have len: "length fits' = length fits"
    and le: "\<And>a b. a < length fits \<Longrightarrow> b < length fits \<Longrightarrow>
      (fits' ! a \<le> fits' ! b) = (fits ! a \<le> fits ! b)"
    by (simp_all add: same_ranking_def)
  show "(i < length fits' \<and> j < length fits' \<and> fits' ! i < fits' ! j)
    = (i < length fits \<and> j < length fits \<and> fits ! i < fits ! j)"
  proof (cases "i < length fits \<and> j < length fits")
    case True
    then have "(fits' ! j \<le> fits' ! i) = (fits ! j \<le> fits ! i)"
      by (simp add: le)
    then have "(fits' ! i < fits' ! j) = (fits ! i < fits ! j)"
      by (simp add: not_le [symmetric])
    with True len show ?thesis
      by simp
  next
    case False
    with len show ?thesis
      by auto
  qed
qed

lemma by_comparisons_same_ranking:
  assumes "same_ranking fits fits'"
  shows "by_comparisons cs fits' = by_comparisons cs fits"
  using assms same_ranking_less [OF assms] by (simp add: by_comparisons_def same_ranking_def)

text \<open>
  Claim C6. The step vector depends on the fitness values through the ranking only.
  For every \<open>np.argsort\<close> that sorts by comparing entries, two fitness arrays that
  induce the same ranking of the members give the same \<open>s\<close>, ties included, and so
  does a strictly increasing function applied to the fitness values. For any
  \<open>np.argsort\<close> within its contract the same holds when the fitness values are
  pairwise different.
\<close>

theorem select_and_weight_rank_only:
  fixes g :: "real \<Rightarrow> real"
  shows "(same_ranking fits fits' \<longrightarrow>
      select_and_weight (by_comparisons cs) N fits' mu
        = select_and_weight (by_comparisons cs) N fits mu)
    \<and> (strict_mono g \<longrightarrow>
      select_and_weight (by_comparisons cs) N (map g fits) mu
        = select_and_weight (by_comparisons cs) N fits mu)
    \<and> (same_ranking fits fits' \<and> distinct fits
        \<and> is_argsort fits (argsort fits) \<and> is_argsort fits' (argsort fits') \<longrightarrow>
      select_and_weight argsort N fits' mu = select_and_weight argsort N fits mu)"
proof (intro conjI impI)
  assume "same_ranking fits fits'"
  then have "by_comparisons cs fits' = by_comparisons cs fits"
    by (rule by_comparisons_same_ranking)
  then show "select_and_weight (by_comparisons cs) N fits' mu
      = select_and_weight (by_comparisons cs) N fits mu"
    by (rule select_and_weight_cong)
next
  assume "strict_mono g"
  then have "same_ranking fits (map g fits)"
    by (rule strict_mono_same_ranking)
  then have "by_comparisons cs (map g fits) = by_comparisons cs fits"
    by (rule by_comparisons_same_ranking)
  then show "select_and_weight (by_comparisons cs) N (map g fits) mu
      = select_and_weight (by_comparisons cs) N fits mu"
    by (rule select_and_weight_cong)
next
  assume a: "same_ranking fits fits' \<and> distinct fits
        \<and> is_argsort fits (argsort fits) \<and> is_argsort fits' (argsort fits')"
  then have "is_argsort fits (argsort fits')"
    using is_argsort_same_ranking [of fits fits' "argsort fits'"] by simp
  with a have "argsort fits' = argsort fits"
    by (blast intro: is_argsort_unique)
  then show "select_and_weight argsort N fits' mu = select_and_weight argsort N fits mu"
    by (rule select_and_weight_cong)
qed

theorem select_and_weight_rank_only_witness:
  "same_ranking [3, 1, 3] [7, 3, 7]
   \<and> strict_mono (\<lambda>v::real. 2 * v + 1)
   \<and> by_comparisons rank_sort [3, 1, 3] = [1, 0, 2]
   \<and> is_argsort [3, 1, 3] (by_comparisons rank_sort [3, 1, 3])
   \<and> select_and_weight (by_comparisons rank_sort) [[1, 2], [3, 4], [5, 6]] [7, 3, 7] 2
     = select_and_weight (by_comparisons rank_sort) [[1, 2], [3, 4], [5, 6]] [3, 1, 3] 2
   \<and> select_and_weight (by_comparisons rank_sort) [[1, 2], [3, 4], [5, 6]]
       (map (\<lambda>v. 2 * v + 1) [3, 1, 3]) 2
     = select_and_weight (by_comparisons rank_sort) [[1, 2], [3, 4], [5, 6]] [3, 1, 3] 2
   \<and> distinct [3, 1, 2 :: real] \<and> same_ranking [3, 1, 2] [7, 3, 5]
   \<and> select_and_weight (\<lambda>fits. [1, 2, 0]) [[1, 2], [3, 4], [5, 6]] [7, 3, 5] 2
     = select_and_weight (\<lambda>fits. [1, 2, 0]) [[1, 2], [3, 4], [5, 6]] [3, 1, 2] 2"
proof -
  let ?g = "\<lambda>v::real. 2 * v + 1"
  let ?N = "[[1, 2], [3, 4], [5, 6]] :: matrix"
  let ?A = "\<lambda>fits::vec. [1, 2, 0 :: nat]"
  have r: "same_ranking [3, 1, 3] [7, 3, 7]"
    by (simp add: same_ranking_def All_less_Suc numeral_3_eq_3)
  have m: "strict_mono ?g"
    by (simp add: strict_mono_def)
  have b: "by_comparisons rank_sort [3, 1, 3] = [1, 0, 2]"
    by (simp add: by_comparisons_def rank_sort_def upt_conv_Cons less_Suc_eq nth_Cons')
  have s: "is_argsort [3, 1, 3] (by_comparisons rank_sort [3, 1, 3])"
    unfolding b by (simp add: is_argsort_def upt_conv_Cons)
  have d: "distinct [3, 1, 2 :: real]"
    by simp
  have r': "same_ranking [3, 1, 2] [7, 3, 5]"
    by (simp add: same_ranking_def All_less_Suc numeral_3_eq_3)
  have s1: "is_argsort [3, 1, 2] (?A [3, 1, 2])"
    by (simp add: is_argsort_def upt_conv_Cons)
  have s2: "is_argsort [7, 3, 5] (?A [7, 3, 5])"
    by (simp add: is_argsort_def upt_conv_Cons)
  from select_and_weight_rank_only [of "[3, 1, 3]" "[7, 3, 7]" rank_sort ?N 2 ?g] r m
  have e1: "select_and_weight (by_comparisons rank_sort) ?N [7, 3, 7] 2
      = select_and_weight (by_comparisons rank_sort) ?N [3, 1, 3] 2"
    and e2: "select_and_weight (by_comparisons rank_sort) ?N (map ?g [3, 1, 3]) 2
      = select_and_weight (by_comparisons rank_sort) ?N [3, 1, 3] 2"
    by blast+
  from select_and_weight_rank_only [of "[3, 1, 2]" "[7, 3, 5]" _ ?N 2 _ ?A] r' d s1 s2
  have e3: "select_and_weight ?A ?N [7, 3, 5] 2 = select_and_weight ?A ?N [3, 1, 2] 2"
    by blast
  from r m b s e1 e2 d r' e3 show ?thesis
    by blast
qed

subsection \<open>Sampling through the eigendecomposition\<close>

lemma nf_add_NaN_right: "nf_add v NaN = NaN"
  by (cases v) simp_all

lemma nf_sum_Num: "nf_sum (map Num vs) = Num (sum_list vs)"
  by (induction vs) (simp_all add: nf_sum_def)

lemma nf_sum_NaN: "NaN \<in> set vs \<Longrightarrow> nf_sum vs = NaN"
proof (induction vs)
  case Nil
  then show ?case by simp
next
  case (Cons v vs)
  show ?case
  proof (cases "v = NaN")
    case True
    then show ?thesis by (simp add: nf_sum_def)
  next
    case False
    with Cons have "foldr nf_add vs (Num 0) = NaN"
      by (simp add: nf_sum_def)
    then show ?thesis
      by (simp add: nf_sum_def nf_add_NaN_right)
  qed
qed

lemma map2_nf_mul_Num:
  "map2 (\<lambda>a b. nf_mul (Num a) b) row (map Num v) = map Num (map2 (*) row v)"
  by (auto simp: zip_map2)

lemma map2_nf_add_Num:
  "map2 nf_add (map Num a) (map Num b) = map Num (map2 (+) a b)"
  by (auto simp: zip_map_map)

lemma map2_nf_mul_Num2:
  "map2 nf_mul (map Num a) (map Num b) = map Num (map2 (*) a b)"
  by (auto simp: zip_map_map)

lemma np_sqrt_nonneg: "\<forall>v\<in>set e. 0 \<le> v \<Longrightarrow> map np_sqrt e = map Num (map sqrt e)"
  by (auto simp: np_sqrt_def)

lemma np_dot_Num: "np_dot A (map Num v) = map Num (mat_vec A v)"
  unfolding np_dot_def mat_vec_def dot_def map2_nf_mul_Num nf_sum_Num
  by simp

text \<open>A sampled point when every eigenvalue has a real square root.\<close>

lemma sample_row_Num:
  assumes "\<forall>v\<in>set e. 0 \<le> v"
  shows "map2 nf_add (map Num x) (np_dot Q (map2 nf_mul (map np_sqrt e) (map Num Ni)))
    = map Num (vec_add x (mat_vec Q (map2 (*) (map sqrt e) Ni)))"
  unfolding np_sqrt_nonneg [OF assms] map2_nf_mul_Num2 np_dot_Num map2_nf_add_Num vec_add_def
  by (rule refl)

lemma dot_assoc: "dot row (map2 (*) se z) = dot (map2 (*) row se) z"
proof (induction row arbitrary: se z)
  case Nil
  show ?case by (simp add: dot_def)
next
  case (Cons a row)
  show ?case
  proof (cases se)
    case Nil
    then show ?thesis by (simp add: dot_def)
  next
    case se: (Cons b se')
    show ?thesis
    proof (cases z)
      case Nil
      then show ?thesis by (simp add: dot_def)
    next
      case (Cons c z')
      with se Cons.IH [of se' z'] show ?thesis
        by (simp add: dot_def mult.assoc)
    qed
  qed
qed

lemma mat_vec_transform:
  "mat_vec Q (map2 (*) (map sqrt e) Ni) = mat_vec (sampling_transform Q e) Ni"
  by (simp add: mat_vec_def sampling_transform_def scale_columns_def dot_assoc)

text \<open>A sampled point when some eigenvalue is negative.\<close>

lemma NaN_in_products:
  assumes "k < length e" and "e ! k < 0" and "length Ni = length e"
  shows "NaN \<in> set (map2 nf_mul (map np_sqrt e) (map Num Ni))"
proof -
  let ?v = "map2 nf_mul (map np_sqrt e) (map Num Ni)"
  have "k < length ?v"
    using assms by simp
  moreover have "?v ! k = NaN"
    using assms by (simp add: np_sqrt_def)
  ultimately show ?thesis
    by (metis nth_mem)
qed

lemma nf_mul_NaN_right: "nf_mul v NaN = NaN"
  by (cases v) simp_all

lemma NaN_in_row_products:
  assumes "k < length v" and "v ! k = NaN" and "length row = length v"
  shows "NaN \<in> set (map2 (\<lambda>a b. nf_mul (Num a) b) row v)"
proof -
  let ?p = "map2 (\<lambda>a b. nf_mul (Num a) b) row v"
  have "k < length ?p"
    using assms by simp
  moreover have "?p ! k = NaN"
    using assms by simp
  ultimately show ?thesis
    by (metis nth_mem)
qed

lemma np_dot_NaN:
  assumes "NaN \<in> set v" and "\<forall>row\<in>set Q. length row = length v"
  shows "np_dot Q v = replicate (length Q) NaN"
proof -
  from assms(1) obtain k where k: "k < length v" "v ! k = NaN"
    by (auto simp: in_set_conv_nth)
  have "\<And>row. row \<in> set Q \<Longrightarrow> nf_sum (map2 (\<lambda>a b. nf_mul (Num a) b) row v) = NaN"
    using assms(2) k by (intro nf_sum_NaN NaN_in_row_products) simp_all
  then show ?thesis
    by (simp add: np_dot_def map_replicate_const [symmetric] cong: map_cong)
qed

lemma map2_nf_add_NaN:
  "length x = n \<Longrightarrow> map2 nf_add (map Num x) (replicate n NaN) = replicate n NaN"
  by (induction x arbitrary: n) auto

lemma sample_row_NaN:
  assumes "\<exists>v\<in>set e. v < 0" and "length e = n" and "square n Q" and "length x = n"
    and "length Ni = n"
  shows "map2 nf_add (map Num x) (np_dot Q (map2 nf_mul (map np_sqrt e) (map Num Ni)))
    = replicate n NaN"
proof -
  from assms(1) obtain k where "k < length e" "e ! k < 0"
    by (auto simp: in_set_conv_nth)
  then have "NaN \<in> set (map2 nf_mul (map np_sqrt e) (map Num Ni))"
    using assms(2,5) by (intro NaN_in_products) simp_all
  moreover have "\<forall>row\<in>set Q. length row = length (map2 nf_mul (map np_sqrt e) (map Num Ni))"
    using assms(2,3,5) by (simp add: square_def)
  ultimately have "np_dot Q (map2 nf_mul (map np_sqrt e) (map Num Ni)) = replicate (length Q) NaN"
    by (rule np_dot_NaN)
  then show ?thesis
    using assms(3,4) by (simp add: square_def map2_nf_add_NaN)
qed














lemma sample_psd:
  assumes "eig C = Inr (e, Q)" and "\<forall>v\<in>set e. 0 \<le> v"
  shows "sample eig x C N =
    Inr (map (\<lambda>Ni. map Num (vec_add x (mat_vec (sampling_transform Q e) Ni))) N)"
  using assms by (simp add: sample_def sample_row_Num mat_vec_transform)

lemma sample_negative:
  assumes "eig C = Inr (e, Q)" and "\<exists>v\<in>set e. v < 0"
    and "length e = n" and "square n Q" and "length x = n" and "\<forall>Ni\<in>set N. length Ni = n"
  shows "sample eig x C N = Inr (replicate (length N) (replicate n NaN))"
proof -
  have "map (\<lambda>Ni. map2 nf_add (map Num x) (np_dot Q (map2 nf_mul (map np_sqrt e) (map Num Ni)))) N
      = map (\<lambda>Ni. replicate n NaN) N"
    using assms by (intro map_cong refl sample_row_NaN) simp_all
  then show ?thesis
    using assms(1) by (simp add: sample_def map_replicate_const)
qed

lemma sample_Inl: "(sample eig x C N = Inl err) = (eig C = Inl err)"
  by (auto simp: sample_def split: sum.splits)




text \<open>
  Claim C2, as stated: sampling signals an error exactly when the covariance has an
  eigenvalue below \<open>-epsilon\<close>. For the covariance \<open>diag(-1, 1)\<close>, whose eigenvalues
  are \<open>-1\<close> and \<open>1\<close>, the cell signals nothing and returns a point whose coordinates
  are \<open>nan\<close>.
\<close>

theorem sample_no_covariance_check_counterexample:
  "is_eigendecomposition 2 [[-1, 0], [0, 1]] [-1, 1] [[1, 0], [0, 1]]
   \<and> sample (\<lambda>C. Inr ([-1, 1], [[1, 0], [0, 1]])) [0, 0] [[-1, 0], [0, 1]] [[1, 1]]
       = Inr [[NaN, NaN]]"
  by (simp add: is_eigendecomposition_def square_def mat_mul_def mul_transposed_def dot_def
      scale_columns_def np_eye_def upt_conv_Cons sample_def np_dot_def np_sqrt_def nf_sum_def)

text \<open>
  Claim C2, amended. Sampling checks nothing about the covariance and clamps nothing.
  It fails exactly when \<open>np.linalg.eig\<close> itself raises, with that error. When
  \<open>np.linalg.eig\<close> returns and some eigenvalue is negative, every coordinate of every
  sampled point is \<open>nan\<close>; when no eigenvalue is negative, no error is signalled and
  every coordinate is a number.
\<close>

theorem sample_no_covariance_check:
  "(sample eig x C N = Inl err \<longleftrightarrow> eig C = Inl err)
   \<and> (eig C = Inr (e, Q) \<and> length e = n \<and> square n Q \<and> length x = n
        \<and> (\<forall>Ni\<in>set N. length Ni = n) \<and> (\<exists>v\<in>set e. v < 0) \<longrightarrow>
      sample eig x C N = Inr (replicate (length N) (replicate n NaN)))
   \<and> (eig C = Inr (e, Q) \<and> (\<forall>v\<in>set e. 0 \<le> v) \<longrightarrow>
      sample eig x C N =
        Inr (map (\<lambda>Ni. map Num (vec_add x (mat_vec (sampling_transform Q e) Ni))) N))"
  by (auto simp: sample_Inl sample_psd sample_negative)

theorem sample_no_covariance_check_witness:
  "sample (\<lambda>C. Inr ([-1, 4], [[1, 0], [0, 1]])) [0, 0] [[-1, 0], [0, 4]] [[1, 1], [2, 3]]
     = Inr [[NaN, NaN], [NaN, NaN]]
   \<and> sample (\<lambda>C. Inr ([4, 9], [[0, 1], [1, 0]])) [1, 2] [[9, 0], [0, 4]] [[1, 1]]
     = Inr [[Num 4, Num 4]]
   \<and> sample (\<lambda>C. Inl LinAlgError) [0, 0] [[1, 2, 3]] [[1, 1]] = Inl LinAlgError"
proof -
  let ?eig1 = "\<lambda>C::matrix. Inr ([-1, 4], [[1, 0], [0, 1]]) :: error + vec \<times> matrix"
  let ?eig2 = "\<lambda>C::matrix. Inr ([4, 9], [[0, 1], [1, 0]]) :: error + vec \<times> matrix"
  let ?eig3 = "\<lambda>C::matrix. Inl LinAlgError :: error + vec \<times> matrix"
  have s4: "sqrt 4 = 2"
    by (rule real_sqrt_unique) simp_all
  have s9: "sqrt 9 = 3"
    by (rule real_sqrt_unique) simp_all
  have a: "?eig1 [[-1, 0], [0, 4]] = Inr ([-1, 4], [[1, 0], [0, 1]])
      \<and> length [-1, 4 :: real] = 2 \<and> square 2 [[1, 0], [0, 1]] \<and> length [0, 0 :: real] = 2
      \<and> (\<forall>Ni\<in>set [[1, 1], [2, 3 :: real]]. length Ni = 2) \<and> (\<exists>v\<in>set [-1, 4 :: real]. v < 0)"
    by (simp add: square_def)
  from sample_no_covariance_check [of ?eig1 "[0, 0]" "[[-1, 0], [0, 4]]" "[[1, 1], [2, 3]]" _
      "[-1, 4]" "[[1, 0], [0, 1]]" 2] a
  have "sample ?eig1 [0, 0] [[-1, 0], [0, 4]] [[1, 1], [2, 3]]
      = Inr (replicate (length [[1, 1], [2, 3 :: real]]) (replicate 2 NaN))"
    by blast
  then have r1: "sample ?eig1 [0, 0] [[-1, 0], [0, 4]] [[1, 1], [2, 3]] = Inr [[NaN, NaN], [NaN, NaN]]"
    by (simp add: numeral_2_eq_2)
  have b: "?eig2 [[9, 0], [0, 4]] = Inr ([4, 9], [[0, 1], [1, 0]]) \<and> (\<forall>v\<in>set [4, 9 :: real]. 0 \<le> v)"
    by simp
  from sample_no_covariance_check [of ?eig2 "[1, 2]" "[[9, 0], [0, 4]]" "[[1, 1]]" _
      "[4, 9]" "[[0, 1], [1, 0]]"] b
  have "sample ?eig2 [1, 2] [[9, 0], [0, 4]] [[1, 1]]
      = Inr (map (\<lambda>Ni. map Num (vec_add [1, 2] (mat_vec (sampling_transform [[0, 1], [1, 0]] [4, 9]) Ni)))
          [[1, 1]])"
    by blast
  then have r2: "sample ?eig2 [1, 2] [[9, 0], [0, 4]] [[1, 1]] = Inr [[Num 4, Num 4]]"
    by (simp add: sampling_transform_def scale_columns_def vec_add_def mat_vec_def dot_def s4 s9)
  from sample_no_covariance_check [of ?eig3 "[0, 0]" "[[1, 2, 3]]" "[[1, 1]]" LinAlgError]
  have r3: "sample ?eig3 [0, 0] [[1, 2, 3]] [[1, 1]] = Inl LinAlgError"
    by blast
  from r1 r2 r3 show ?thesis
    by blast
qed

end
